theory Spec2Isabelle
  imports Main "HOL-Library.AList"
begin

section \<open>Strings as the services use them\<close>

text \<open>
  The extension's strings are modelled as \<open>string\<close> (a list of characters), and
  \<open>.length\<close> as the length of that list.  \<open>split_on\<close> is \<^verbatim>\<open>String.prototype.split\<close> with a
  separator of one character: it cuts at every occurrence, keeps empty pieces, and
  yields one empty piece for the empty string; \<open>split_sp\<close> is \<^verbatim>\<open>text.split(' ')\<close>.
  \<open>join\<close> is \<^verbatim>\<open>Array.prototype.join\<close>, \<open>trim\<close> is \<^verbatim>\<open>String.prototype.trim\<close> on the
  white space that fits in one byte.
\<close>

fun split_on :: "char \<Rightarrow> string \<Rightarrow> string list" where
  "split_on sep [] = [[]]"
| "split_on sep (c # cs) =
     (if c = sep then [] # split_on sep cs
      else (case split_on sep cs of [] \<Rightarrow> [[c]] | w # ws \<Rightarrow> (c # w) # ws))"

definition split_sp :: "string \<Rightarrow> string list" where
  "split_sp text = split_on (CHR '' '') text"

fun join :: "string \<Rightarrow> string list \<Rightarrow> string" where
  "join sep [] = []"
| "join sep [w] = w"
| "join sep (w # v # ws) = w @ sep @ join sep (v # ws)"

definition is_space :: "char \<Rightarrow> bool" where
  "is_space c = (c \<in> {CHR 0x09, CHR 0x0A, CHR 0x0B, CHR 0x0C, CHR 0x0D, CHR 0x20, CHR 0xA0})"

definition trim :: "string \<Rightarrow> string" where
  "trim s = rev (dropWhile is_space (rev (dropWhile is_space s)))"

fun startsWith :: "string \<Rightarrow> string \<Rightarrow> bool" where
  "startsWith s [] = True"
| "startsWith [] (p # ps) = False"
| "startsWith (c # cs) (p # ps) = (c = p \<and> startsWith cs ps)"

section \<open>GeminiService.splitIntoChunks\<close>

text \<open>
  The \<^verbatim>\<open>for (const word of words)\<close> loop, with its two mutable variables \<^verbatim>\<open>chunks\<close> and
  \<^verbatim>\<open>currentChunk\<close> passed along.  The test compares the length of the joined current
  chunk plus the length of the word with the limit, exactly as the source does.
\<close>

fun chunk_loop :: "nat \<Rightarrow> string list \<Rightarrow> string list \<Rightarrow> string list \<Rightarrow> string list \<times> string list" where
  "chunk_loop maxChunkLength [] chunks currentChunk = (chunks, currentChunk)"
| "chunk_loop maxChunkLength (word # words) chunks currentChunk =
     (if length (join '' '' currentChunk) + length word > maxChunkLength
      then chunk_loop maxChunkLength words (chunks @ [join '' '' currentChunk]) [word]
      else chunk_loop maxChunkLength words chunks (currentChunk @ [word]))"

definition splitIntoChunks :: "string \<Rightarrow> nat \<Rightarrow> string list" where
  "splitIntoChunks text maxChunkLength =
     (case chunk_loop maxChunkLength (split_sp text) [] [] of
        (chunks, currentChunk) \<Rightarrow>
          if length currentChunk > 0 then chunks @ [join '' '' currentChunk] else chunks)"

definition MAX_CHUNK_LENGTH :: nat where
  "MAX_CHUNK_LENGTH = 30000"

text \<open>The last push, after the loop, on its own.\<close>

definition finish :: "string list \<times> string list \<Rightarrow> string list" where
  "finish p =
     (case p of (chunks, currentChunk) \<Rightarrow>
        if length currentChunk > 0 then chunks @ [join '' '' currentChunk] else chunks)"

section \<open>CacheService over chrome.storage.local\<close>

text \<open>
  The persisted store is an object from keys to values; \<^verbatim>\<open>chrome.storage.local.get(null)\<close>
  hands all of it out in some order, so it is an association list here.  Every call on
  the store may reject; \<open>available\<close> says whether it answers.  Each method of the
  service catches such a rejection and logs it, which is a branch of its model.
  \<^verbatim>\<open>Date.now()\<close> is the argument \<open>now\<close> of the method that reads it.
\<close>

record summary =
  sid :: string
  videoId :: string
  content :: string
  language :: string
  timestamp :: int
  keyPoints :: "string list"
  topics :: "string list"

record 'a cache_entry =
  data :: 'a
  expiresAt :: int

record 'a local_storage =
  items :: "(string \<times> 'a cache_entry) list"
  available :: bool

datatype storage_error = StorageError

definition SUMMARY_PREFIX :: string where
  "SUMMARY_PREFIX = ''summary_''"

definition CACHE_PREFIX :: string where
  "CACHE_PREFIX = ''yt_summary_''"

definition CACHE_DURATION :: int where
  "CACHE_DURATION = 7 * 24 * 60 * 60 * 1000"

definition local_get :: "string \<Rightarrow> 'a local_storage \<Rightarrow> storage_error + 'a cache_entry option" where
  "local_get key st = (if available st then Inr (map_of (items st) key) else Inl StorageError)"

definition local_get_all :: "'a local_storage \<Rightarrow> storage_error + (string \<times> 'a cache_entry) list" where
  "local_get_all st = (if available st then Inr (items st) else Inl StorageError)"

definition local_set :: "string \<Rightarrow> 'a cache_entry \<Rightarrow> 'a local_storage \<Rightarrow> storage_error + 'a local_storage" where
  "local_set key entry st =
     (if available st then Inr (st\<lparr>items := AList.update key entry (items st)\<rparr>)
      else Inl StorageError)"

definition local_remove :: "string list \<Rightarrow> 'a local_storage \<Rightarrow> storage_error + 'a local_storage" where
  "local_remove keys st =
     (if available st then Inr (st\<lparr>items := filter (\<lambda>kv. fst kv \<notin> set keys) (items st)\<rparr>)
      else Inl StorageError)"

text \<open>\<^verbatim>\<open>remove(key)\<close>: a failure of the store is logged and dropped.\<close>

definition remove :: "string \<Rightarrow> 'a local_storage \<Rightarrow> 'a local_storage" where
  "remove key st = (case local_remove [key] st of Inl e \<Rightarrow> st | Inr st' \<Rightarrow> st')"

text \<open>
  \<^verbatim>\<open>getSummary(videoId)\<close> returns the summary or null, and the store as it leaves it.
  An entry is expired when \<^verbatim>\<open>entry.expiresAt < Date.now()\<close>.
\<close>

definition getSummary :: "string \<Rightarrow> int \<Rightarrow> 'a local_storage \<Rightarrow> 'a option \<times> 'a local_storage" where
  "getSummary vid now st =
     (let key = CACHE_PREFIX @ vid in
      case local_get key st of
        Inl e \<Rightarrow> (None, st)
      | Inr None \<Rightarrow> (None, st)
      | Inr (Some entry) \<Rightarrow>
          if expiresAt entry < now then (None, remove key st)
          else (Some (data entry), st))"

definition setSummary :: "string \<Rightarrow> 'a \<Rightarrow> int \<Rightarrow> 'a local_storage \<Rightarrow> 'a local_storage" where
  "setSummary vid s now st =
     (let key = CACHE_PREFIX @ vid;
          entry = \<lparr>data = s, expiresAt = now + CACHE_DURATION\<rparr>
      in case local_set key entry st of Inl e \<Rightarrow> st | Inr st' \<Rightarrow> st')"

definition removeSummary :: "string \<Rightarrow> 'a local_storage \<Rightarrow> 'a local_storage" where
  "removeSummary vid st = remove (SUMMARY_PREFIX @ vid) st"

text \<open>
  \<^verbatim>\<open>getAllSummaries()\<close> walks the snapshot it read; a live entry under the
  \<^verbatim>\<open>summary_\<close> prefix is collected, an expired one is removed on the way.  The result
  is sorted by descending timestamp (the sort is stable).
\<close>

fun all_summaries_loop ::
  "int \<Rightarrow> (string \<times> summary cache_entry) list \<Rightarrow> summary list \<Rightarrow> summary local_storage
    \<Rightarrow> summary list \<times> summary local_storage" where
  "all_summaries_loop now [] summaries st = (summaries, st)"
| "all_summaries_loop now ((key, entry) # rest) summaries st =
     (if startsWith key SUMMARY_PREFIX then
        (if expiresAt entry > now
         then all_summaries_loop now rest (summaries @ [data entry]) st
         else all_summaries_loop now rest summaries (remove key st))
      else all_summaries_loop now rest summaries st)"

definition getAllSummaries :: "int \<Rightarrow> summary local_storage \<Rightarrow> summary list \<times> summary local_storage" where
  "getAllSummaries now st =
     (case local_get_all st of
        Inl e \<Rightarrow> ([], st)
      | Inr snapshot \<Rightarrow>
          (case all_summaries_loop now snapshot [] st of
             (summaries, st') \<Rightarrow> (sort_key (\<lambda>s. - timestamp s) summaries, st')))"

text \<open>
  \<^verbatim>\<open>cleanup()\<close>: the keys to remove are those under the cache prefix whose entry has
  expired; they are removed in one call, and only when there is at least one.
\<close>

definition cleanup :: "int \<Rightarrow> 'a local_storage \<Rightarrow> 'a local_storage" where
  "cleanup now st =
     (case local_get_all st of
        Inl e \<Rightarrow> st
      | Inr snapshot \<Rightarrow>
          (let keysToRemove =
                 map fst (filter (\<lambda>kv. startsWith (fst kv) CACHE_PREFIX \<and> expiresAt (snd kv) < now) snapshot)
           in if length keysToRemove > 0
              then (case local_remove keysToRemove st of Inl e \<Rightarrow> st | Inr st' \<Rightarrow> st')
              else st))"

text \<open>
  A store for running the sweep: an expired and a live entry of the cache, and an
  expired entry under another key, as \<^verbatim>\<open>setUserPreferences\<close> writes it.
\<close>

definition shelf :: "string local_storage" where
  "shelf = \<lparr>items = [(''yt_summary_old'', \<lparr>data = ''o'', expiresAt = 5\<rparr>),
                      (''yt_summary_new'', \<lparr>data = ''n'', expiresAt = 50\<rparr>),
                      (''user_preferences'', \<lparr>data = ''p'', expiresAt = 5\<rparr>)],
            available = True\<rparr>"

section \<open>GeminiService.summarizeChunkWithRetry\<close>

text \<open>
  One attempt makes at most one request.  What the request yields is given by the
  environment, per attempt: it does not complete (the endpoint getter or \<^verbatim>\<open>fetch\<close>
  throws), or it completes with a status and a body.  The body is not JSON, or it is
  JSON with an optional \<^verbatim>\<open>error.message\<close> and an optional
  \<^verbatim>\<open>candidates[0].content.parts[0].text\<close>.
\<close>

datatype json_body = NotJson | Json "string option" "string option"

datatype fetch_result = Rejected string | Response nat json_body

datatype io_event = Attempted nat | Waited nat

datatype attempt_result = Text string | RetryRateLimited | Thrown string

definition MAX_RETRIES :: nat where
  "MAX_RETRIES = 3"

definition INITIAL_RETRY_DELAY :: nat where
  "INITIAL_RETRY_DELAY = 1000"

definition ok :: "nat \<Rightarrow> bool" where
  "ok status = (200 \<le> status \<and> status \<le> 299)"

definition backoff :: "nat \<Rightarrow> nat" where
  "backoff attempt = INITIAL_RETRY_DELAY * 2 ^ (attempt - 1)"

text \<open>
  The \<^verbatim>\<open>try\<close> block of one attempt, up to the point where it returns the text, throws
  into its own \<^verbatim>\<open>catch\<close>, or (on 429 with attempts left) waits and calls itself.  An
  empty string is falsy in the source, so an empty message or text counts as missing.
\<close>

definition try_block :: "fetch_result \<Rightarrow> nat \<Rightarrow> attempt_result" where
  "try_block response attempt =
     (case response of
        Rejected e \<Rightarrow> Thrown e
      | Response status body \<Rightarrow>
          if \<not> ok status then
            (case body of
               NotJson \<Rightarrow> Thrown ''Unexpected token in JSON''
             | Json message text \<Rightarrow>
                 if status = 429 then
                   (if attempt < MAX_RETRIES then RetryRateLimited
                    else Thrown ''Rate limit exceeded. Please try again later.'')
                 else
                   (case message of
                      None \<Rightarrow> Thrown ''Failed to generate summary''
                    | Some m \<Rightarrow> Thrown (if m = [] then ''Failed to generate summary'' else m)))
          else
            (case body of
               NotJson \<Rightarrow> Thrown ''Unexpected token in JSON''
             | Json message text \<Rightarrow>
                 (case text of
                    None \<Rightarrow> Thrown ''Invalid response format from API''
                  | Some t \<Rightarrow>
                      if t = [] then Thrown ''Invalid response format from API'' else Text t)))"

text \<open>
  The method with its \<^verbatim>\<open>catch\<close>: a thrown error is logged; while
  \<^verbatim>\<open>attempt < MAX_RETRIES\<close> the method waits and calls itself with the next attempt,
  otherwise it returns null.  Nothing leaves the method as an exception, so its result
  is the text or null, together with the requests made and the waits, in order.
\<close>

function summarizeChunkWithRetry :: "(nat \<Rightarrow> fetch_result) \<Rightarrow> nat \<Rightarrow> string option \<times> io_event list" where
  "summarizeChunkWithRetry fetch attempt =
     (case try_block (fetch attempt) attempt of
        Text t \<Rightarrow> (Some t, [Attempted attempt])
      | RetryRateLimited \<Rightarrow>
          (case summarizeChunkWithRetry fetch (attempt + 1) of
             (r, log) \<Rightarrow> (r, Attempted attempt # Waited (backoff attempt) # log))
      | Thrown e \<Rightarrow>
          if attempt < MAX_RETRIES then
            (case summarizeChunkWithRetry fetch (attempt + 1) of
               (r, log) \<Rightarrow> (r, Attempted attempt # Waited (backoff attempt) # log))
          else (None, [Attempted attempt]))"
  by pat_completeness auto
termination
  by (relation "measure (\<lambda>(fetch, attempt). MAX_RETRIES - attempt)")
     (auto simp: try_block_def split: fetch_result.splits json_body.splits if_splits option.splits)

definition waits :: "io_event list \<Rightarrow> nat list" where
  "waits log = concat (map (\<lambda>e. case e of Waited d \<Rightarrow> [d] | Attempted a \<Rightarrow> []) log)"

definition status_of :: "fetch_result \<Rightarrow> nat option" where
  "status_of r = (case r of Rejected e \<Rightarrow> None | Response status body \<Rightarrow> Some status)"

text \<open>
  Two servers for running the method: \<open>flaky\<close> answers the first request with a
  successful response that lacks the text and every later one with a summary;
  \<open>always status\<close> answers every request with that status and an error message.
\<close>

definition flaky :: "nat \<Rightarrow> fetch_result" where
  "flaky attempt =
     (if attempt = 1 then Response 200 (Json None None)
      else Response 200 (Json None (Some ''summary'')))"

definition always :: "nat \<Rightarrow> nat \<Rightarrow> fetch_result" where
  "always status attempt = Response status (Json (Some ''denied'') None)"

section \<open>BackgroundService.handleSummarizeVideo\<close>

text \<open>
  The background context runs one handler at a time, and a handler gives up control
  only at an \<^verbatim>\<open>await\<close>.  A call of \<^verbatim>\<open>handleSummarizeVideo\<close> is therefore a small state
  machine: it rests at one of its four \<^verbatim>\<open>await\<close>s or has returned, and one step runs it
  from the \<^verbatim>\<open>await\<close> it rests at to the next one.  Calls share the set
  \<^verbatim>\<open>processingVideos\<close> and the store of the cache.

  What a call gets from outside is part of the call: the answer of
  \<^verbatim>\<open>chrome.storage.sync.get('geminiApiKey')\<close> (a rejection, or the stored key if any), how
  \<^verbatim>\<open>gemini.summarize\<close> settles (a rejection, or its response), and the clock at the cache
  lookup and at the cache write.  The cache lookup and the cache write take effect when
  the call is resumed from them.  The transcript and the options only travel to
  \<^verbatim>\<open>gemini.summarize\<close> and are left out.
\<close>

datatype 'a api_response = Success 'a | Failure string

datatype event = Added string | SummarizeCalled string | CacheWritten string | Deleted string

datatype position =
    AtApiKey
  | AtCacheLookup
  | AtSummarize
  | AtCacheWrite summary
  | Returned "summary api_response"

record call =
  vid :: string
  storedKey :: "string + string option"
  lookupTime :: int
  summarizeResult :: "string + summary api_response"
  writeTime :: int
  at :: position
  trace :: "event list"

record coordinator =
  processingVideos :: "string set"
  cache :: "summary local_storage"
  calls :: "call list"

definition falsy :: "string option \<Rightarrow> bool" where
  "falsy k = (case k of None \<Rightarrow> True | Some v \<Rightarrow> v = [])"

text \<open>
  One step of a call.  From \<open>AtSummarize\<close> on, the call is inside the inner
  \<^verbatim>\<open>try ... finally\<close>: every way out of it runs
  \<^verbatim>\<open>this.processingVideos.delete(videoId)\<close>, and a rejection then reaches the outer
  \<^verbatim>\<open>catch\<close>, which turns it into a failure response.
\<close>

definition handleSummarizeVideo ::
  "call \<Rightarrow> string set \<Rightarrow> summary local_storage \<Rightarrow> call \<times> string set \<times> summary local_storage" where
  "handleSummarizeVideo c pv st =
     (case at c of
        AtApiKey \<Rightarrow>
          (case storedKey c of
             Inl e \<Rightarrow> (c\<lparr>at := Returned (Failure e)\<rparr>, pv, st)
           | Inr geminiApiKey \<Rightarrow>
               if falsy geminiApiKey then
                 (c\<lparr>at := Returned (Failure ''Please set your Gemini API key in the extension settings'')\<rparr>,
                  pv, st)
               else if vid c \<in> pv then
                 (c\<lparr>at := Returned (Failure ''Video is already being processed'')\<rparr>, pv, st)
               else (c\<lparr>at := AtCacheLookup\<rparr>, pv, st))
      | AtCacheLookup \<Rightarrow>
          (case getSummary (vid c) (lookupTime c) st of
             (Some cachedSummary, st') \<Rightarrow> (c\<lparr>at := Returned (Success cachedSummary)\<rparr>, pv, st')
           | (None, st') \<Rightarrow>
               (c\<lparr>at := AtSummarize, trace := trace c @ [Added (vid c), SummarizeCalled (vid c)]\<rparr>,
                insert (vid c) pv, st'))
      | AtSummarize \<Rightarrow>
          (case summarizeResult c of
             Inl e \<Rightarrow>
               (c\<lparr>at := Returned (Failure e), trace := trace c @ [Deleted (vid c)]\<rparr>, pv - {vid c}, st)
           | Inr (Success s) \<Rightarrow> (c\<lparr>at := AtCacheWrite s\<rparr>, pv, st)
           | Inr (Failure e) \<Rightarrow>
               (c\<lparr>at := Returned (Failure e), trace := trace c @ [Deleted (vid c)]\<rparr>, pv - {vid c}, st))
      | AtCacheWrite s \<Rightarrow>
          (c\<lparr>at := Returned (Success s), trace := trace c @ [CacheWritten (vid c), Deleted (vid c)]\<rparr>,
           pv - {vid c}, setSummary (vid c) s (writeTime c) st)
      | Returned r \<Rightarrow> (c, pv, st))"

text \<open>
  The event loop: \<open>step i\<close> resumes the \<open>i\<close>-th call, and a schedule is the order in
  which the calls are resumed.
\<close>

definition step :: "nat \<Rightarrow> coordinator \<Rightarrow> coordinator" where
  "step i co =
     (if i < length (calls co) then
        (case handleSummarizeVideo (calls co ! i) (processingVideos co) (cache co) of
           (c', pv', st') \<Rightarrow> \<lparr>processingVideos = pv', cache = st', calls = (calls co)[i := c']\<rparr>)
      else co)"

definition run :: "nat list \<Rightarrow> coordinator \<Rightarrow> coordinator" where
  "run schedule co = fold step schedule co"

definition in_flight :: "call \<Rightarrow> bool" where
  "in_flight c = (case at c of AtSummarize \<Rightarrow> True | AtCacheWrite s \<Rightarrow> True | _ \<Rightarrow> False)"

definition fresh :: "call \<Rightarrow> bool" where
  "fresh c = (at c = AtApiKey \<and> trace c = [])"

text \<open>
  The service as its constructor leaves it, with the given calls issued and none of
  them resumed yet.
\<close>

definition started :: "summary local_storage \<Rightarrow> call list \<Rightarrow> coordinator" where
  "started st cs = \<lparr>processingVideos = {}, cache = st, calls = cs\<rparr>"

definition request :: "string \<Rightarrow> string \<Rightarrow> int \<Rightarrow> string + summary api_response \<Rightarrow> call" where
  "request v key now outcome =
     \<lparr>vid = v, storedKey = Inr (Some key), lookupTime = now, summarizeResult = outcome,
      writeTime = now, at = AtApiKey, trace = []\<rparr>"

text \<open>
  The trace a call has at each position, and what the trace of a returned call is: the
  call never marked its video, or it marked it, called the summarizer and unmarked it
  once, with the cache write in between when the summarizer succeeded.
\<close>

definition settled :: "call \<Rightarrow> bool" where
  "settled c =
     (trace c = []
      \<or> trace c = [Added (vid c), SummarizeCalled (vid c), Deleted (vid c)]
      \<or> trace c = [Added (vid c), SummarizeCalled (vid c), CacheWritten (vid c), Deleted (vid c)])"

definition trace_fits :: "call \<Rightarrow> bool" where
  "trace_fits c =
     (case at c of
        AtApiKey \<Rightarrow> trace c = []
      | AtCacheLookup \<Rightarrow> trace c = []
      | AtSummarize \<Rightarrow> trace c = [Added (vid c), SummarizeCalled (vid c)]
      | AtCacheWrite s \<Rightarrow> trace c = [Added (vid c), SummarizeCalled (vid c)]
      | Returned r \<Rightarrow> settled c)"

definition accounted :: "coordinator \<Rightarrow> bool" where
  "accounted co =
     ((\<forall>c \<in> set (calls co). trace_fits c)
      \<and> (\<forall>v \<in> processingVideos co.
            \<exists>j < length (calls co). in_flight (calls co ! j) \<and> vid (calls co ! j) = v))"

text \<open>
  Two scenes.  In \<open>twice\<close> the popup asks for the summary of the same video two times
  in a row, the key is set and the cache is empty.  In \<open>mixed\<close> three videos are asked
  for: the summarizer succeeds for the first, answers with a failure for the second and
  rejects for the third.
\<close>

definition answer :: summary where
  "answer = \<lparr>sid = ''v_1'', videoId = ''v'', content = ''text'', language = ''en'',
             timestamp = 1, keyPoints = [], topics = []\<rparr>"

definition empty_store :: "summary local_storage" where
  "empty_store = \<lparr>items = [], available = True\<rparr>"

definition twice :: coordinator where
  "twice = started empty_store
     [request ''v'' ''key'' 1 (Inr (Success answer)), request ''v'' ''key'' 1 (Inr (Success answer))]"

definition mixed :: coordinator where
  "mixed = started empty_store
     [request ''v'' ''key'' 1 (Inr (Success answer)),
      request ''b'' ''key'' 1 (Inr (Failure ''Failed to generate any valid summaries'')),
      request ''c'' ''key'' 1 (Inl ''boom'')]"

section \<open>BackgroundService.handleExportSummary\<close>

text \<open>
  \<^verbatim>\<open>new Date(summary.timestamp).toLocaleString()\<close> depends on the locale of the browser
  and is a parameter.  The bullet of the plain-text export is written as its three
  bytes.
\<close>

definition exportAsText :: "(int \<Rightarrow> string) \<Rightarrow> summary \<Rightarrow> string" where
  "exportAsText toLocaleString s =
     trim (''\<newline>Video Summary\<newline>Title: '' @ videoId s
       @ ''\<newline>Generated: '' @ toLocaleString (timestamp s)
       @ ''\<newline>\<newline>Key Points:\<newline>''
       @ join ''\<newline>'' (map (\<lambda>point. [CHR 0xE2, CHR 0x80, CHR 0xA2] @ '' '' @ point) (keyPoints s))
       @ ''\<newline>\<newline>Topics: '' @ join '', '' (topics s)
       @ ''\<newline>\<newline>Full Summary:\<newline>'' @ content s @ ''\<newline>    '')"

definition exportAsMarkdown :: "(int \<Rightarrow> string) \<Rightarrow> summary \<Rightarrow> string" where
  "exportAsMarkdown toLocaleString s =
     trim (''\<newline># Video Summary\<newline>\<newline>## Metadata\<newline>- **Video ID**: '' @ videoId s
       @ ''\<newline>- **Generated**: '' @ toLocaleString (timestamp s)
       @ ''\<newline>\<newline>## Key Points\<newline>''
       @ join ''\<newline>'' (map (\<lambda>point. ''* '' @ point) (keyPoints s))
       @ ''\<newline>\<newline>## Topics\<newline>''
       @ join '' '' (map (\<lambda>topic. ''`'' @ topic @ ''`'') (topics s))
       @ ''\<newline>\<newline>## Full Summary\<newline>'' @ content s @ ''\<newline>    '')"

definition handleExportSummary :: "(int \<Rightarrow> string) \<Rightarrow> summary \<Rightarrow> string \<Rightarrow> string api_response" where
  "handleExportSummary toLocaleString s format =
     Success (if format = ''markdown'' then exportAsMarkdown toLocaleString s
              else exportAsText toLocaleString s)"

text \<open>
  Reading an exported document back: its lines, the section under a heading (the lines
  after the first line that is the heading, up to the next empty line), the bulleted
  lines, and the inline-code tokens of a line (the pieces enclosed by a pair of
  backticks).
\<close>

definition lines :: "string \<Rightarrow> string list" where
  "lines doc = split_on (CHR ''\<newline>'') doc"

definition section_of :: "string \<Rightarrow> string list \<Rightarrow> string list" where
  "section_of heading ls = takeWhile (\<lambda>l. l \<noteq> []) (tl (dropWhile (\<lambda>l. l \<noteq> heading) ls))"

definition bulleted :: "string \<Rightarrow> bool" where
  "bulleted l = startsWith l ''* ''"

fun enclosed :: "string list \<Rightarrow> string list" where
  "enclosed (outside # inside # next # pieces) = inside # enclosed (next # pieces)"
| "enclosed pieces = []"

definition code_tokens :: "string \<Rightarrow> string list" where
  "code_tokens l = enclosed (split_on (CHR ''`'') l)"

text \<open>
  \<open>trim_end\<close> is the half of \<open>trim\<close> that works at the end of the string.
  \<open>head_lines\<close> are the lines of the Markdown document above its last heading.
\<close>

definition trim_end :: "string \<Rightarrow> string" where
  "trim_end s = rev (dropWhile is_space (rev s))"

definition head_lines :: "string \<Rightarrow> string \<Rightarrow> string list \<Rightarrow> string list \<Rightarrow> string list" where
  "head_lines v d kps tps =
     [''# Video Summary'', '''', ''## Metadata'', ''- **Video ID**: '' @ v, ''- **Generated**: '' @ d,
      '''', ''## Key Points''] @ map (\<lambda>point. ''* '' @ point) kps
     @ ['''', ''## Topics'', join '' '' (map (\<lambda>topic. ''`'' @ topic @ ''`'') tps), '''']"

text \<open>
  Two summaries with two key points and two topics each, and a date format.  In
  \<open>untidy\<close> a key point holds a line break and a topic holds backticks.
\<close>

definition today :: "int \<Rightarrow> string" where
  "today t = ''11/3/2026, 9:46:00 AM''"

definition tidy :: summary where
  "tidy = \<lparr>sid = ''v_1'', videoId = ''v'', content = ''All of it.'', language = ''en'',
           timestamp = 1, keyPoints = [''first'', ''second''], topics = [''cats'', ''dogs'']\<rparr>"

definition untidy :: summary where
  "untidy = \<lparr>sid = ''v_1'', videoId = ''v'', content = ''All of it.'', language = ''en'',
           timestamp = 1, keyPoints = [''first\<newline>* more'', ''second''],
           topics = [''cats`and`dogs'', ''birds'']\<rparr>"

section \<open>Results\<close>

subsection \<open>Chunking\<close>

text \<open>
  What the loop does guarantee.  The chunks joined by single spaces give the text back
  when the first word fits the limit, and the text behind one space otherwise.  A chunk
  is one word of the text, or it is at most one character longer than the limit.
\<close>

lemma split_on_not_Nil: "split_on sep s \<noteq> []"
  by (induction s) (auto split: list.splits)

lemma join_split_on: "join [sep] (split_on sep s) = s"
proof (induction s)
  case Nil
  then show ?case by simp
next
  case (Cons c cs)
  obtain w ws where ws: "split_on sep cs = w # ws"
    using split_on_not_Nil[of sep cs] by (cases "split_on sep cs") auto
  with Cons show ?case
    by (cases ws) auto
qed

lemma join_two: "a \<noteq> [] \<Longrightarrow> b \<noteq> [] \<Longrightarrow> join sep (a @ b) = join sep a @ sep @ join sep b"
  by (induction sep a rule: join.induct) (auto simp: neq_Nil_conv)

lemma join_snoc2:
  "join sep (xs @ [a, b]) = join sep (xs @ [a @ sep @ b])"
  by (induction sep xs rule: join.induct) auto

lemma chunk_loop_join:
  "cur \<noteq> [] \<Longrightarrow>
   join '' '' (finish (chunk_loop L words chunks cur)) = join '' '' (chunks @ [join '' '' (cur @ words)])"
proof (induction words arbitrary: chunks cur)
  case Nil
  then show ?case by (simp add: finish_def)
next
  case (Cons w ws)
  show ?case
  proof (cases "length (join '' '' cur) + length w > L")
    case True
    then have "join '' '' (finish (chunk_loop L (w # ws) chunks cur))
             = join '' '' ((chunks @ [join '' '' cur]) @ [join '' '' ([w] @ ws)])"
      using Cons.IH[of "[w]" "chunks @ [join '' '' cur]"] by simp
    also have "\<dots> = join '' '' (chunks @ [join '' '' cur @ '' '' @ join '' '' (w # ws)])"
      using join_snoc2[of "'' ''" chunks "join '' '' cur" "join '' '' (w # ws)"] by simp
    also have "join '' '' cur @ '' '' @ join '' '' (w # ws) = join '' '' (cur @ w # ws)"
      using Cons.prems by (simp add: join_two)
    finally show ?thesis .
  next
    case False
    then show ?thesis
      using Cons.IH[of "cur @ [w]" chunks] by simp
  qed
qed

lemma splitIntoChunks_join:
  "join '' '' (splitIntoChunks text L) =
     (if length (hd (split_sp text)) > L then '' '' @ text else text)"
proof -
  obtain w ws where ws: "split_sp text = w # ws"
    using split_on_not_Nil[of "CHR '' ''" "text"] by (cases "split_sp text") (auto simp: split_sp_def)
  have whole: "join '' '' (w # ws) = text"
    using join_split_on[of "CHR '' ''" "text"] ws by (simp add: split_sp_def)
  have fin: "splitIntoChunks text L = finish (chunk_loop L (w # ws) [] [])"
    by (simp add: splitIntoChunks_def finish_def ws)
  show ?thesis
  proof (cases "length w > L")
    case True
    then have "join '' '' (splitIntoChunks text L) = join '' '' ([[]] @ [join '' '' ([w] @ ws)])"
      unfolding fin using chunk_loop_join[of "[w]" L ws "[[]]"] by simp
    with True whole ws show ?thesis by simp
  next
    case False
    then have "join '' '' (splitIntoChunks text L) = join '' '' ([] @ [join '' '' ([w] @ ws)])"
      unfolding fin using chunk_loop_join[of "[w]" L ws "[]"] by simp
    with False whole ws show ?thesis by simp
  qed
qed

lemma length_join_snoc:
  "length (join '' '' (cur @ [w])) \<le> length (join '' '' cur) + length w + 1"
  by (induction "'' ''" cur rule: join.induct) auto

lemma chunk_loop_bound:
  assumes "\<forall>c \<in> set chunks. c \<in> set ws0 \<or> length c \<le> L + 1"
    and "(\<exists>w \<in> set ws0. cur = [w]) \<or> length (join '' '' cur) \<le> L + 1"
    and "set words \<subseteq> set ws0"
  shows "\<forall>c \<in> set (finish (chunk_loop L words chunks cur)). c \<in> set ws0 \<or> length c \<le> L + 1"
  using assms
proof (induction words arbitrary: chunks cur)
  case Nil
  then show ?case by (auto simp: finish_def)
next
  case (Cons w ws)
  show ?case
  proof (cases "length (join '' '' cur) + length w > L")
    case True
    have "\<forall>c \<in> set (finish (chunk_loop L ws (chunks @ [join '' '' cur]) [w])). c \<in> set ws0 \<or> length c \<le> L + 1"
      using Cons.prems by (intro Cons.IH) auto
    with True show ?thesis by simp
  next
    case False
    have "length (join '' '' (cur @ [w])) \<le> L + 1"
      using False length_join_snoc[of cur w] by simp
    then have "\<forall>c \<in> set (finish (chunk_loop L ws chunks (cur @ [w]))). c \<in> set ws0 \<or> length c \<le> L + 1"
      using Cons.prems by (intro Cons.IH) auto
    with False show ?thesis by simp
  qed
qed

lemma splitIntoChunks_bound:
  "c \<in> set (splitIntoChunks text L) \<Longrightarrow> c \<in> set (split_sp text) \<or> length c \<le> L + 1"
proof -
  have "\<forall>c \<in> set (finish (chunk_loop L (split_sp text) [] [])). c \<in> set (split_sp text) \<or> length c \<le> L + 1"
    by (rule chunk_loop_bound) simp_all
  moreover have "splitIntoChunks text L = finish (chunk_loop L (split_sp text) [] [])"
    by (simp add: splitIntoChunks_def finish_def)
  ultimately show "c \<in> set (splitIntoChunks text L) \<Longrightarrow> c \<in> set (split_sp text) \<or> length c \<le> L + 1"
    by simp
qed

lemma split_on_append_sep:
  "sep \<notin> set a \<Longrightarrow> split_on sep (a @ sep # b) = a # split_on sep b"
  by (induction a) (auto split: list.splits)

lemma split_on_free: "sep \<notin> set a \<Longrightarrow> split_on sep a = [a]"
  by (induction a) (auto split: list.splits)

text \<open>Two words that fit the limit without the space between them make one chunk.\<close>

lemma two_words_one_chunk:
  assumes "CHR '' '' \<notin> set w1" and "CHR '' '' \<notin> set w2" and "length w1 + length w2 \<le> L"
  shows "splitIntoChunks (w1 @ '' '' @ w2) L = [w1 @ '' '' @ w2]"
proof -
  have "split_sp (w1 @ '' '' @ w2) = [w1, w2]"
    using assms(1,2) by (simp add: split_sp_def split_on_append_sep split_on_free)
  with assms(3) show ?thesis
    by (simp add: splitIntoChunks_def)
qed

text \<open>
  C3.  The claim bounds every chunk by the limit unless the chunk is one over-long word,
  and says that the chunks joined by single spaces give the text back.  The loop does
  not count the space that joins a word to the current chunk: two words of 15000
  characters stay one chunk of 30001 characters under the limit of 30000, as \<open>ab c\<close>
  stays one chunk of four characters under the limit 3.  It also pushes the empty
  current chunk when the very first word is longer than the limit: a text of 30001
  characters without a space yields an empty first chunk, and the chunks joined by
  spaces give the text with a space in front, as for \<open>abcd e\<close> under the limit 3.
\<close>

theorem splitIntoChunks_exceeds_limit:
  "splitIntoChunks (replicate 15000 (CHR ''a'') @ '' '' @ replicate 15000 (CHR ''b'')) MAX_CHUNK_LENGTH
     = [replicate 15000 (CHR ''a'') @ '' '' @ replicate 15000 (CHR ''b'')]
   \<and> length (replicate 15000 (CHR ''a'') @ '' '' @ replicate 15000 (CHR ''b'')) = 30001
   \<and> join '' '' (splitIntoChunks (replicate 30001 (CHR ''a'')) MAX_CHUNK_LENGTH)
     = '' '' @ replicate 30001 (CHR ''a'')
   \<and> splitIntoChunks ''ab c'' 3 = [''ab c'']
   \<and> splitIntoChunks ''abcd e'' 3 = ['''', ''abcd'', ''e'']
   \<and> join '' '' (splitIntoChunks ''abcd e'' 3) = '' abcd e''"
proof -
  have one: "splitIntoChunks (replicate 15000 (CHR ''a'') @ '' '' @ replicate 15000 (CHR ''b''))
               MAX_CHUNK_LENGTH
     = [replicate 15000 (CHR ''a'') @ '' '' @ replicate 15000 (CHR ''b'')]"
    by (rule two_words_one_chunk) (simp_all add: MAX_CHUNK_LENGTH_def)
  have "split_sp (replicate 30001 (CHR ''a'')) = [replicate 30001 (CHR ''a'')]"
    by (simp add: split_sp_def split_on_free)
  then have two: "join '' '' (splitIntoChunks (replicate 30001 (CHR ''a'')) MAX_CHUNK_LENGTH)
     = '' '' @ replicate 30001 (CHR ''a'')"
    using splitIntoChunks_join[of "replicate 30001 (CHR ''a'')" MAX_CHUNK_LENGTH]
    by (simp add: MAX_CHUNK_LENGTH_def)
  have small: "splitIntoChunks ''ab c'' 3 = [''ab c'']
   \<and> splitIntoChunks ''abcd e'' 3 = ['''', ''abcd'', ''e'']
   \<and> join '' '' (splitIntoChunks ''abcd e'' 3) = '' abcd e''"
    by (simp add: splitIntoChunks_def split_sp_def)
  from one two small show ?thesis by simp
qed

subsection \<open>The cache\<close>

lemma map_of_filter_keys:
  "map_of (filter (\<lambda>kv. fst kv \<notin> S) al) k = (if k \<in> S then None else map_of al k)"
  by (induction al) auto

lemma map_of_filter_key:
  "map_of (filter (\<lambda>kv. fst kv \<noteq> k') al) k = (if k = k' then None else map_of al k)"
  by (induction al) auto

lemma expired_keys_iff:
  "distinct (map fst al) \<Longrightarrow>
   k \<in> set (map fst (filter (\<lambda>kv. P (fst kv) (snd kv)) al)) \<longleftrightarrow>
   (\<exists>e. map_of al k = Some e \<and> P k e)"
  by (induction al) (auto simp: rev_image_eqI)

lemma items_setSummary:
  "items (setSummary v s t0 st) =
     (if available st
      then AList.update (CACHE_PREFIX @ v) \<lparr>data = s, expiresAt = t0 + CACHE_DURATION\<rparr> (items st)
      else items st)"
  by (simp add: setSummary_def local_set_def Let_def)

lemma available_setSummary: "available (setSummary v s t0 st) = available st"
  by (simp add: setSummary_def local_set_def Let_def)

text \<open>
  C7.  The claim: after \<open>setSummary\<close> at time \<open>t0\<close>, a lookup strictly before
  \<open>t0 + CACHE_DURATION\<close> returns the summary, and a lookup at or after that time
  returns null and deletes the entry.  The lookup treats an entry as expired when
  \<open>expiresAt < now\<close>, so at the instant \<open>t0 + CACHE_DURATION\<close> itself the summary is
  still returned.
\<close>

theorem getSummary_at_expiry_counterexample:
  "fst (getSummary ''v'' (0 + CACHE_DURATION)
          (setSummary ''v'' ''s'' 0 \<lparr>items = [], available = True\<rparr>))
     = Some ''s''"
  by (simp add: getSummary_def setSummary_def local_get_def local_set_def CACHE_PREFIX_def)

text \<open>
  C7, amended.  On a store that answers, a lookup at any time up to and including
  \<open>t0 + CACHE_DURATION\<close> returns the stored summary and leaves the store as it is; a
  lookup at any later time returns null and leaves no entry under the key.
\<close>

theorem getSummary_after_setSummary:
  assumes "available st"
  shows "(now \<le> t0 + CACHE_DURATION \<longrightarrow>
            getSummary v now (setSummary v s t0 st) = (Some s, setSummary v s t0 st))
       \<and> (t0 + CACHE_DURATION < now \<longrightarrow>
            fst (getSummary v now (setSummary v s t0 st)) = None
          \<and> map_of (items (snd (getSummary v now (setSummary v s t0 st)))) (CACHE_PREFIX @ v) = None)"
  using assms
  by (auto simp: getSummary_def setSummary_def local_get_def local_set_def remove_def
      local_remove_def update_conv' Let_def map_of_eq_None_iff)

theorem getSummary_after_setSummary_witness:
  "available \<lparr>items = [], available = True\<rparr>
   \<and> getSummary ''v'' 604800000 (setSummary ''v'' ''s'' 0 \<lparr>items = [], available = True\<rparr>)
       = (Some ''s'', setSummary ''v'' ''s'' 0 \<lparr>items = [], available = True\<rparr>)
   \<and> fst (getSummary ''v'' 604800001 (setSummary ''v'' ''s'' 0 \<lparr>items = [], available = True\<rparr>)) = None
   \<and> map_of (items (snd (getSummary ''v'' 604800001
                (setSummary ''v'' ''s'' 0 \<lparr>items = [], available = True\<rparr>))))
        (CACHE_PREFIX @ ''v'') = None"
  using getSummary_after_setSummary [of "\<lparr>items = [], available = True\<rparr>" 604800000 0 "''v''" "''s''"]
        getSummary_after_setSummary [of "\<lparr>items = [], available = True\<rparr>" 604800001 0 "''v''" "''s''"]
  by (simp add: CACHE_DURATION_def)

text \<open>
  C8.  The claim: the sweep removes every expired entry of the whole store, also under
  keys outside the cache's prefix.  \<open>cleanup\<close> selects a key only when it starts with
  the cache prefix, so an expired entry under \<^verbatim>\<open>user_preferences\<close> stays.
\<close>

theorem cleanup_keeps_expired_foreign_entry_counterexample:
  "map_of (items (cleanup 10 \<lparr>items = [(''user_preferences'', \<lparr>data = ''p'', expiresAt = 5\<rparr>)],
                               available = True\<rparr>)) ''user_preferences''
     = Some \<lparr>data = ''p'', expiresAt = 5\<rparr>"
  by (simp add: cleanup_def local_get_all_def local_remove_def CACHE_PREFIX_def)

text \<open>
  C8, amended.  On a store that answers (its keys distinct, as those of an object are),
  the sweep removes exactly the entries whose key starts with the cache prefix and whose
  \<open>expiresAt\<close> is below the current time; every other entry, expired or not, is kept
  as it is.
\<close>

theorem cleanup_removes_expired_cache_entries:
  assumes av: "available st" and d: "distinct (map fst (items st))"
  shows "map_of (items (cleanup now st)) k =
     (case map_of (items st) k of
        None \<Rightarrow> None
      | Some e \<Rightarrow> if startsWith k CACHE_PREFIX \<and> expiresAt e < now then None else Some e)"
proof -
  let ?P = "\<lambda>k e. startsWith k CACHE_PREFIX \<and> expiresAt e < now"
  let ?keys = "map fst (filter (\<lambda>kv. ?P (fst kv) (snd kv)) (items st))"
  have mem: "k \<in> set ?keys \<longleftrightarrow> (\<exists>e. map_of (items st) k = Some e \<and> ?P k e)"
    using expired_keys_iff[OF d, of k ?P] .
  show ?thesis
  proof (cases "?keys = []")
    case True
    then have "cleanup now st = st"
      using av by (simp add: cleanup_def local_get_all_def Let_def)
    moreover from True mem have "\<not> (\<exists>e. map_of (items st) k = Some e \<and> ?P k e)"
      by simp
    ultimately show ?thesis by (auto split: option.splits)
  next
    case False
    then have "items (cleanup now st) = filter (\<lambda>kv. fst kv \<notin> set ?keys) (items st)"
      using av by (simp add: cleanup_def local_get_all_def local_remove_def Let_def)
    then have "map_of (items (cleanup now st)) k =
                 (if k \<in> set ?keys then None else map_of (items st) k)"
      by (simp only: map_of_filter_keys)
    with mem show ?thesis by (auto split: option.splits)
  qed
qed

theorem cleanup_removes_expired_cache_entries_witness:
  "available shelf \<and> distinct (map fst (items shelf))
   \<and> map_of (items (cleanup 10 shelf)) ''yt_summary_old'' = None
   \<and> map_of (items (cleanup 10 shelf)) ''yt_summary_new'' = Some \<lparr>data = ''n'', expiresAt = 50\<rparr>
   \<and> map_of (items (cleanup 10 shelf)) ''user_preferences'' = Some \<lparr>data = ''p'', expiresAt = 5\<rparr>"
  using cleanup_removes_expired_cache_entries [of shelf 10 "''yt_summary_old''"]
        cleanup_removes_expired_cache_entries [of shelf 10 "''yt_summary_new''"]
        cleanup_removes_expired_cache_entries [of shelf 10 "''user_preferences''"]
  by (simp add: shelf_def CACHE_PREFIX_def)

text \<open>
  What \<open>getAllSummaries\<close> returns: the live entries under the \<^verbatim>\<open>summary_\<close> prefix, in
  the order of the snapshot, then sorted.
\<close>

lemma all_summaries_loop_result:
  "fst (all_summaries_loop now snapshot acc st) =
     acc @ map (\<lambda>kv. data (snd kv))
              (filter (\<lambda>kv. startsWith (fst kv) SUMMARY_PREFIX \<and> expiresAt (snd kv) > now) snapshot)"
  by (induction now snapshot acc st rule: all_summaries_loop.induct) auto

lemma getAllSummaries_result:
  "fst (getAllSummaries now st) =
     (if available st then
        sort_key (\<lambda>s. - timestamp s)
          (map (\<lambda>kv. data (snd kv))
             (filter (\<lambda>kv. startsWith (fst kv) SUMMARY_PREFIX \<and> expiresAt (snd kv) > now) (items st)))
      else [])"
proof -
  have "fst (all_summaries_loop now (items st) [] st) =
          map (\<lambda>kv. data (snd kv))
             (filter (\<lambda>kv. startsWith (fst kv) SUMMARY_PREFIX \<and> expiresAt (snd kv) > now) (items st))"
    by (simp add: all_summaries_loop_result)
  then show ?thesis
    by (auto simp: getAllSummaries_def local_get_all_def split: prod.splits)
qed

lemma filter_update_foreign:
  "(\<And>v. \<not> P (k, v)) \<Longrightarrow> filter P (AList.update k e al) = filter P al"
  by (induction al) auto

lemma not_startsWith_cache_key: "\<not> startsWith (CACHE_PREFIX @ v) SUMMARY_PREFIX"
  by (simp add: SUMMARY_PREFIX_def CACHE_PREFIX_def)

lemma prefix_neq: "SUMMARY_PREFIX @ v \<noteq> CACHE_PREFIX @ w"
  by (simp add: SUMMARY_PREFIX_def CACHE_PREFIX_def)

text \<open>
  C10.  \<open>setSummary\<close> writes under \<^verbatim>\<open>yt_summary_\<close>, while \<open>removeSummary\<close> and
  \<open>getAllSummaries\<close> work on \<^verbatim>\<open>summary_\<close> keys.  Hence: removing the summary of any
  video leaves what is stored under the cache key of \<open>v\<close> after \<open>setSummary v\<close> as it
  is, and that is the entry just written when the store answers; the result of
  \<open>getAllSummaries\<close> is the same before and after a \<open>setSummary\<close>; and on a store
  filled by \<open>setSummary\<close> alone \<open>getAllSummaries\<close> returns nothing.
\<close>

theorem summary_prefix_misses_cache_entries:
  "map_of (items (removeSummary v' (setSummary v s t0 st))) (CACHE_PREFIX @ v)
     = map_of (items (setSummary v s t0 st)) (CACHE_PREFIX @ v)
   \<and> map_of (items (setSummary v s t0 st)) (CACHE_PREFIX @ v)
     = (if available st then Some \<lparr>data = s, expiresAt = t0 + CACHE_DURATION\<rparr>
        else map_of (items st) (CACHE_PREFIX @ v))
   \<and> fst (getAllSummaries now (setSummary v s t0 st)) = fst (getAllSummaries now st)
   \<and> fst (getAllSummaries now
        (fold (\<lambda>w. setSummary (fst w) (fst (snd w)) (snd (snd w))) writes
           \<lparr>items = [], available = a\<rparr>)) = []"
proof (intro conjI)
  show "map_of (items (removeSummary v' (setSummary v s t0 st))) (CACHE_PREFIX @ v)
     = map_of (items (setSummary v s t0 st)) (CACHE_PREFIX @ v)"
    using prefix_neq [of v' v]
    by (auto simp: removeSummary_def remove_def local_remove_def map_of_filter_key)
  show "map_of (items (setSummary v s t0 st)) (CACHE_PREFIX @ v)
     = (if available st then Some \<lparr>data = s, expiresAt = t0 + CACHE_DURATION\<rparr>
        else map_of (items st) (CACHE_PREFIX @ v))"
    by (simp add: items_setSummary update_conv')
  show "fst (getAllSummaries now (setSummary v s t0 st)) = fst (getAllSummaries now st)"
    by (simp add: getAllSummaries_result items_setSummary available_setSummary
        filter_update_foreign not_startsWith_cache_key)
  have "fst (getAllSummaries now
          (fold (\<lambda>w. setSummary (fst w) (fst (snd w)) (snd (snd w))) writes st0))
        = fst (getAllSummaries now st0)" for st0
    by (induction writes arbitrary: st0)
      (simp_all add: getAllSummaries_result items_setSummary available_setSummary
        filter_update_foreign not_startsWith_cache_key)
  then show "fst (getAllSummaries now
        (fold (\<lambda>w. setSummary (fst w) (fst (snd w)) (snd (snd w))) writes
           \<lparr>items = [], available = a\<rparr>)) = []"
    by (simp add: getAllSummaries_result)
qed

subsection \<open>Retrying a summarization call\<close>

declare summarizeChunkWithRetry.simps [simp del]

lemma retry_after_throw:
  assumes "try_block (fetch attempt) attempt = Thrown e"
  shows "summarizeChunkWithRetry fetch attempt =
     (if attempt < MAX_RETRIES then
        (fst (summarizeChunkWithRetry fetch (attempt + 1)),
         Attempted attempt # Waited (backoff attempt)
           # snd (summarizeChunkWithRetry fetch (attempt + 1)))
      else (None, [Attempted attempt]))"
  using assms by (subst summarizeChunkWithRetry.simps) (simp split: prod.splits)

lemma retry_after_rate_limit:
  assumes "try_block (fetch attempt) attempt = RetryRateLimited"
  shows "summarizeChunkWithRetry fetch attempt =
        (fst (summarizeChunkWithRetry fetch (attempt + 1)),
         Attempted attempt # Waited (backoff attempt)
           # snd (summarizeChunkWithRetry fetch (attempt + 1)))"
  using assms by (subst summarizeChunkWithRetry.simps) (simp split: prod.splits)

text \<open>
  Every response that is not successful is handled alike, whatever its status and its
  body: wait and retry while attempts remain, null after the last attempt.
\<close>

lemma not_ok_retried:
  assumes "fetch attempt = Response status body" and "\<not> ok status"
  shows "summarizeChunkWithRetry fetch attempt =
     (if attempt < MAX_RETRIES then
        (fst (summarizeChunkWithRetry fetch (attempt + 1)),
         Attempted attempt # Waited (backoff attempt)
           # snd (summarizeChunkWithRetry fetch (attempt + 1)))
      else (None, [Attempted attempt]))"
proof (cases "try_block (fetch attempt) attempt")
  case (Text t)
  with assms show ?thesis
    by (auto simp: try_block_def split: json_body.splits if_splits option.splits)
next
  case RetryRateLimited
  moreover from RetryRateLimited assms have "attempt < MAX_RETRIES"
    by (auto simp: try_block_def split: json_body.splits if_splits option.splits)
  ultimately show ?thesis by (simp add: retry_after_rate_limit)
next
  case (Thrown e)
  then show ?thesis by (rule retry_after_throw)
qed

text \<open>
  C4.  The claim: a successful response whose body lacks the text makes the call fail
  at once, without a retry.  The error for such a body is thrown inside the \<^verbatim>\<open>try\<close>
  block and lands in the method's own \<^verbatim>\<open>catch\<close>, which retries: against \<open>flaky\<close> the
  call waits one second, asks again and returns the summary of the second response.
\<close>

theorem malformed_response_counterexample:
  "summarizeChunkWithRetry flaky 1 = (Some ''summary'', [Attempted 1, Waited 1000, Attempted 2])"
  by (simp add: summarizeChunkWithRetry.simps try_block_def flaky_def ok_def MAX_RETRIES_def
      backoff_def INITIAL_RETRY_DELAY_def)

text \<open>
  C4, amended.  A successful response whose body lacks the text (or has an empty one)
  makes the attempt fail; while \<open>attempt < MAX_RETRIES\<close> the call waits the backoff of
  the attempt and goes on with the next attempt, and on the last attempt it returns
  null.
\<close>

theorem malformed_response_is_retried:
  assumes "fetch attempt = Response status (Json message text)" and "ok status" and "falsy text"
  shows "summarizeChunkWithRetry fetch attempt =
     (if attempt < MAX_RETRIES then
        (fst (summarizeChunkWithRetry fetch (attempt + 1)),
         Attempted attempt # Waited (backoff attempt)
           # snd (summarizeChunkWithRetry fetch (attempt + 1)))
      else (None, [Attempted attempt]))"
proof -
  from assms have "try_block (fetch attempt) attempt = Thrown ''Invalid response format from API''"
    by (auto simp: try_block_def falsy_def split: option.splits)
  then show ?thesis by (rule retry_after_throw)
qed

theorem malformed_response_is_retried_witness:
  "flaky 1 = Response 200 (Json None None) \<and> ok 200 \<and> falsy None
   \<and> summarizeChunkWithRetry flaky 1 =
        (fst (summarizeChunkWithRetry flaky (1 + 1)),
         Attempted 1 # Waited (backoff 1) # snd (summarizeChunkWithRetry flaky (1 + 1)))"
  using malformed_response_is_retried [of flaky 1 200 None None]
  by (simp add: flaky_def ok_def falsy_def MAX_RETRIES_def)

text \<open>
  C5.  The claim: a 401 or 403 response is not retried and its error is handed to the
  caller as it is.  The method has no branch for these statuses: the error is thrown
  into the \<^verbatim>\<open>catch\<close> like any other, the call is retried twice with backoff, and the
  caller gets null.
\<close>

theorem auth_error_counterexample:
  "summarizeChunkWithRetry (always 401) 1
     = (None, [Attempted 1, Waited 1000, Attempted 2, Waited 2000, Attempted 3])
   \<and> summarizeChunkWithRetry (always 403) 1
     = (None, [Attempted 1, Waited 1000, Attempted 2, Waited 2000, Attempted 3])"
  by (simp add: summarizeChunkWithRetry.simps try_block_def always_def ok_def MAX_RETRIES_def
      backoff_def INITIAL_RETRY_DELAY_def)

text \<open>
  C5, amended.  An attempt that receives 401 or 403 is handled as one that receives any
  other unsuccessful status: while \<open>attempt < MAX_RETRIES\<close> the call waits the backoff
  of the attempt and goes on with the next attempt; on the last attempt it returns null,
  and the error message does not reach the caller.
\<close>

theorem auth_error_is_retried:
  assumes "fetch attempt = Response status body" and "status = 401 \<or> status = 403"
  shows "summarizeChunkWithRetry fetch attempt =
     (if attempt < MAX_RETRIES then
        (fst (summarizeChunkWithRetry fetch (attempt + 1)),
         Attempted attempt # Waited (backoff attempt)
           # snd (summarizeChunkWithRetry fetch (attempt + 1)))
      else (None, [Attempted attempt]))"
proof -
  from assms(2) have "\<not> ok status"
    by (auto simp: ok_def)
  with assms(1) show ?thesis by (rule not_ok_retried)
qed

theorem auth_error_is_retried_witness:
  "always 401 1 = Response 401 (Json (Some ''denied'') None)
   \<and> summarizeChunkWithRetry (always 401) 1 =
        (fst (summarizeChunkWithRetry (always 401) (1 + 1)),
         Attempted 1 # Waited (backoff 1) # snd (summarizeChunkWithRetry (always 401) (1 + 1)))
   \<and> always 403 3 = Response 403 (Json (Some ''denied'') None)
   \<and> summarizeChunkWithRetry (always 403) 3 = (None, [Attempted 3])"
  using auth_error_is_retried [of "always 401" 1 401 "Json (Some ''denied'') None"]
        auth_error_is_retried [of "always 403" 3 403 "Json (Some ''denied'') None"]
  by (simp add: always_def MAX_RETRIES_def)

text \<open>
  C6.  A call whose every attempt receives 429 makes \<open>MAX_RETRIES\<close> attempts, waits
  \<open>backoff attempt = INITIAL_RETRY_DELAY * 2 ^ (attempt - 1)\<close> after each attempt but
  the last, so that the waits increase strictly, and returns null.
\<close>

theorem rate_limited_backoff_then_null:
  assumes "\<forall>a. 1 \<le> a \<and> a \<le> MAX_RETRIES \<longrightarrow> status_of (fetch a) = Some 429"
  shows "fst (summarizeChunkWithRetry fetch 1) = None
       \<and> snd (summarizeChunkWithRetry fetch 1)
           = [Attempted 1, Waited 1000, Attempted 2, Waited 2000, Attempted 3]
       \<and> waits (snd (summarizeChunkWithRetry fetch 1)) = map backoff [1..<MAX_RETRIES]
       \<and> sorted_wrt (<) (waits (snd (summarizeChunkWithRetry fetch 1)))"
proof -
  have r: "\<exists>b. fetch a = Response 429 b" if "1 \<le> a" "a \<le> 3" for a
  proof -
    from assms that have "status_of (fetch a) = Some 429"
      by (simp add: MAX_RETRIES_def)
    then show ?thesis
      by (cases "fetch a") (simp_all add: status_of_def)
  qed
  obtain b1 b2 b3 where b:
    "fetch 1 = Response 429 b1" "fetch 2 = Response 429 b2" "fetch 3 = Response 429 b3"
    using r[of 1] r[of 2] r[of 3] by auto
  have nok: "\<not> ok 429" by (simp add: ok_def)
  have 3: "summarizeChunkWithRetry fetch 3 = (None, [Attempted 3])"
    using not_ok_retried[of fetch 3 429 b3] b nok by (simp add: MAX_RETRIES_def)
  have 2: "summarizeChunkWithRetry fetch 2 = (None, [Attempted 2, Waited 2000, Attempted 3])"
    using not_ok_retried[of fetch 2 429 b2] b nok 3
    by (simp add: MAX_RETRIES_def backoff_def INITIAL_RETRY_DELAY_def)
  have 1: "summarizeChunkWithRetry fetch 1
             = (None, [Attempted 1, Waited 1000, Attempted 2, Waited 2000, Attempted 3])"
    using not_ok_retried[of fetch 1 429 b1] b nok 2
    by (simp add: MAX_RETRIES_def backoff_def INITIAL_RETRY_DELAY_def numeral_2_eq_2)
  have up: "[1..<MAX_RETRIES] = [1, 2]"
    by (simp add: MAX_RETRIES_def upt_rec)
  show ?thesis
    unfolding 1 up by (simp add: waits_def backoff_def INITIAL_RETRY_DELAY_def)
qed

theorem rate_limited_backoff_then_null_witness:
  "status_of (always 429 1) = Some 429
   \<and> status_of (always 429 2) = Some 429
   \<and> status_of (always 429 3) = Some 429
   \<and> fst (summarizeChunkWithRetry (always 429) 1) = None
   \<and> waits (snd (summarizeChunkWithRetry (always 429) 1)) = [1000, 2000]"
  using rate_limited_backoff_then_null [of "always 429"]
  by (simp add: always_def status_of_def waits_def)

subsection \<open>The coordinator\<close>

lemmas machine_defs = run_def step_def handleSummarizeVideo_def started_def request_def falsy_def
  getSummary_def setSummary_def local_get_def local_set_def remove_def local_remove_def
  CACHE_PREFIX_def

text \<open>
  A call that finds its video marked, with a key set, returns the failure at once and
  touches nothing.
\<close>

lemma already_processing_when_marked:
  assumes "at c = AtApiKey" and "storedKey c = Inr (Some key)" and "key \<noteq> []" and "vid c \<in> pv"
  shows "handleSummarizeVideo c pv st
           = (c\<lparr>at := Returned (Failure ''Video is already being processed'')\<rparr>, pv, st)"
  using assms by (simp add: handleSummarizeVideo_def falsy_def)

text \<open>
  C1.  The claim: a second request for a video that comes while the first one has begun
  and has not returned fails with the already-processing error and starts no second
  summarization.  The video is marked only after the cache lookup, which is an
  \<^verbatim>\<open>await\<close>: a second call that runs its membership test while the first one waits for
  the lookup finds the set empty.  In \<open>twice\<close>, resuming the calls in turn brings both
  of them to the summarizer, and both return a summary.
\<close>

theorem overlapping_requests_both_summarize:
  "map at (calls (run [0, 1, 0, 1] twice)) = [AtSummarize, AtSummarize]
   \<and> map trace (calls (run [0, 1, 0, 1] twice))
       = [[Added ''v'', SummarizeCalled ''v''], [Added ''v'', SummarizeCalled ''v'']]
   \<and> map at (calls (run [0, 1, 0, 1, 0, 0, 1, 1] twice))
       = [Returned (Success answer), Returned (Success answer)]"
  by (simp add: twice_def empty_store_def machine_defs)

text \<open>One step of a call keeps its trace in line with its position.\<close>

lemma handle_trace_fits:
  assumes "handleSummarizeVideo c pv st = (c', pv', st')" and "trace_fits c"
  shows "trace_fits c'"
  using assms
  by (auto simp: handleSummarizeVideo_def trace_fits_def settled_def
      split: position.splits sum.splits if_splits option.splits api_response.splits prod.splits)

lemma handle_vid:
  assumes "handleSummarizeVideo c pv st = (c', pv', st')"
  shows "vid c' = vid c"
  using assms
  by (auto simp: handleSummarizeVideo_def
      split: position.splits sum.splits if_splits option.splits api_response.splits prod.splits)

text \<open>
  A step adds at most the video of the call, and then the call is in flight; a step
  that takes a call out of flight takes its video out of the set.
\<close>

lemma handle_member:
  assumes "handleSummarizeVideo c pv st = (c', pv', st')" and "v \<in> pv'"
  shows "v \<in> pv \<or> (v = vid c \<and> in_flight c')"
  using assms
  by (auto simp: handleSummarizeVideo_def in_flight_def
      split: position.splits sum.splits if_splits option.splits api_response.splits prod.splits)

lemma handle_release:
  assumes "handleSummarizeVideo c pv st = (c', pv', st')" and "in_flight c" and "\<not> in_flight c'"
  shows "vid c \<notin> pv'"
  using assms
  by (auto simp: handleSummarizeVideo_def in_flight_def
      split: position.splits sum.splits if_splits option.splits api_response.splits prod.splits)

lemma step_accounted:
  assumes "accounted co"
  shows "accounted (step i co)"
proof (cases "i < length (calls co)")
  case False
  with assms show ?thesis by (simp add: step_def)
next
  case True
  obtain c' pv' st' where h:
    "handleSummarizeVideo (calls co ! i) (processingVideos co) (cache co) = (c', pv', st')"
    by (cases "handleSummarizeVideo (calls co ! i) (processingVideos co) (cache co)")
  let ?c = "calls co ! i"
  have s: "step i co = \<lparr>processingVideos = pv', cache = st', calls = (calls co)[i := c']\<rparr>"
    using True h by (simp add: step_def)
  from assms True have "trace_fits ?c"
    by (simp add: accounted_def)
  with h have fits: "trace_fits c'"
    by (rule handle_trace_fits)
  have all: "\<forall>c \<in> set ((calls co)[i := c']). trace_fits c"
  proof
    fix c assume "c \<in> set ((calls co)[i := c'])"
    then have "c = c' \<or> c \<in> set (calls co)"
      using set_update_subset_insert[of "calls co" i c'] by auto
    with fits assms show "trace_fits c"
      by (auto simp: accounted_def)
  qed
  have held: "\<exists>j < length (calls co).
                in_flight ((calls co)[i := c'] ! j) \<and> vid ((calls co)[i := c'] ! j) = v"
    if "v \<in> pv'" for v
  proof -
    from h that have "v \<in> processingVideos co \<or> (v = vid ?c \<and> in_flight c')"
      by (rule handle_member)
    then show ?thesis
    proof
      assume "v = vid ?c \<and> in_flight c'"
      with True handle_vid[OF h] show ?thesis
        by (intro exI[of _ i]) simp
    next
      assume "v \<in> processingVideos co"
      with assms obtain j where j:
        "j < length (calls co)" "in_flight (calls co ! j)" "vid (calls co ! j) = v"
        by (auto simp: accounted_def)
      show ?thesis
      proof (cases "j = i")
        case False
        with j show ?thesis by (intro exI[of _ j]) simp
      next
        case same: True
        show ?thesis
        proof (cases "in_flight c'")
          case True
          with j same handle_vid[OF h] show ?thesis
            by (intro exI[of _ i]) simp
        next
          case False
          with h j same have "vid ?c \<notin> pv'"
            by (auto dest: handle_release)
          with j same that show ?thesis by simp
        qed
      qed
    qed
  qed
  show ?thesis
    unfolding s accounted_def using all held by simp
qed

lemma run_accounted: "accounted co \<Longrightarrow> accounted (run schedule co)"
  unfolding run_def by (induction schedule arbitrary: co) (simp_all add: step_accounted)

lemma started_accounted: "\<forall>c \<in> set cs. fresh c \<Longrightarrow> accounted (started st cs)"
  by (auto simp: accounted_def started_def fresh_def trace_fits_def)

text \<open>
  C2.  Whatever calls are issued and in whatever order they are resumed: a call that
  has returned either never added its video to \<open>processingVideos\<close>, or it added it
  once and deleted it once, after the add and before returning, whether the summarizer
  succeeded, failed or threw; and every video in \<open>processingVideos\<close> is the video of
  a call that has added it and has not returned yet, so that no video stays marked when
  its calls are over.
\<close>

theorem processing_entry_removed_exactly_once:
  assumes "\<forall>c \<in> set cs. fresh c"
  shows "(\<forall>c \<in> set (calls (run schedule (started st cs))).
            (\<exists>r. at c = Returned r) \<longrightarrow>
              trace c = []
            \<or> trace c = [Added (vid c), SummarizeCalled (vid c), Deleted (vid c)]
            \<or> trace c = [Added (vid c), SummarizeCalled (vid c), CacheWritten (vid c), Deleted (vid c)])
       \<and> (\<forall>v \<in> processingVideos (run schedule (started st cs)).
            \<exists>c \<in> set (calls (run schedule (started st cs))). in_flight c \<and> vid c = v)"
proof -
  from assms have a: "accounted (run schedule (started st cs))"
    by (intro run_accounted started_accounted)
  show ?thesis
  proof (intro conjI ballI impI)
    fix c assume "c \<in> set (calls (run schedule (started st cs)))" and "\<exists>r. at c = Returned r"
    with a have "settled c"
      by (auto simp: accounted_def trace_fits_def)
    then show "trace c = []
            \<or> trace c = [Added (vid c), SummarizeCalled (vid c), Deleted (vid c)]
            \<or> trace c = [Added (vid c), SummarizeCalled (vid c), CacheWritten (vid c), Deleted (vid c)]"
      by (simp add: settled_def)
  next
    fix v assume "v \<in> processingVideos (run schedule (started st cs))"
    with a obtain j where "j < length (calls (run schedule (started st cs)))"
      and "in_flight (calls (run schedule (started st cs)) ! j)"
      and "vid (calls (run schedule (started st cs)) ! j) = v"
      by (auto simp: accounted_def)
    then show "\<exists>c \<in> set (calls (run schedule (started st cs))). in_flight c \<and> vid c = v"
      using nth_mem by blast
  qed
qed

theorem processing_entry_removed_exactly_once_witness:
  "fresh (request ''v'' ''key'' 1 (Inr (Success answer)))
   \<and> fresh (request ''b'' ''key'' 1 (Inr (Failure ''Failed to generate any valid summaries'')))
   \<and> fresh (request ''c'' ''key'' 1 (Inl ''boom''))
   \<and> map at (calls (run [0, 1, 2, 0, 1, 2, 0, 1, 2, 0] mixed))
       = [Returned (Success answer),
          Returned (Failure ''Failed to generate any valid summaries''),
          Returned (Failure ''boom'')]
   \<and> map trace (calls (run [0, 1, 2, 0, 1, 2, 0, 1, 2, 0] mixed))
       = [[Added ''v'', SummarizeCalled ''v'', CacheWritten ''v'', Deleted ''v''],
          [Added ''b'', SummarizeCalled ''b'', Deleted ''b''],
          [Added ''c'', SummarizeCalled ''c'', Deleted ''c'']]
   \<and> processingVideos (run [0, 1, 2, 0, 1, 2, 0, 1, 2, 0] mixed) = {}
   \<and> processingVideos (run [0, 1, 2, 0, 1, 2] mixed) = {''v'', ''b'', ''c''}"
  using processing_entry_removed_exactly_once
    [of "[request ''v'' ''key'' 1 (Inr (Success answer)),
          request ''b'' ''key'' 1 (Inr (Failure ''Failed to generate any valid summaries'')),
          request ''c'' ''key'' 1 (Inl ''boom'')]" "[0, 1, 2, 0, 1, 2, 0, 1, 2, 0]" empty_store]
  by (simp add: mixed_def empty_store_def fresh_def machine_defs insert_Diff_if insert_commute)

subsection \<open>The Markdown export\<close>

lemma join_snoc_cons:
  "join sep ((l # ls) @ [x]) = l @ sep @ join sep (ls @ [x])"
  by (cases ls) auto

text \<open>Lines joined by line breaks are read back as they were.\<close>

lemma lines_join:
  "\<forall>l \<in> set ls. CHR ''\<newline>'' \<notin> set l \<Longrightarrow>
   lines (join ''\<newline>'' (ls @ [x]) @ t) = ls @ lines (x @ t)"
proof (induction ls)
  case Nil
  then show ?case by simp
next
  case (Cons l ls)
  then have "lines (join ''\<newline>'' ((l # ls) @ [x]) @ t)
         = lines (l @ CHR ''\<newline>'' # (join ''\<newline>'' (ls @ [x]) @ t))"
    by (simp only: join_snoc_cons) simp
  also have "\<dots> = l # lines (join ''\<newline>'' (ls @ [x]) @ t)"
    using Cons.prems by (simp add: lines_def split_on_append_sep)
  finally show ?case using Cons by simp
qed

lemma dropWhile_append_stop:
  "\<not> P c \<Longrightarrow> dropWhile P (xs @ c # ys) = dropWhile P xs @ c # ys"
  by (induction xs) auto

lemma trim_end_append:
  "\<not> is_space c \<Longrightarrow> trim_end (xs @ c # ys) = xs @ c # trim_end ys"
  by (simp add: trim_end_def dropWhile_append_stop)

lemma trim_after_newline:
  "\<not> is_space c \<Longrightarrow> trim (CHR ''\<newline>'' # c # cs) = trim_end (c # cs)"
  by (simp add: trim_def trim_end_def is_space_def)

text \<open>
  \<open>trim\<close> takes the line break in front of the title away and works at the end only
  behind the last heading: the document is its head lines, the last heading, and what
  is left of the content.
\<close>

lemma exportAsMarkdown_shape:
  assumes "keyPoints s = [k1, k2]"
  shows "exportAsMarkdown f s =
     join ''\<newline>''
       (head_lines (videoId s) (f (timestamp s)) (keyPoints s) (topics s) @ [''## Full Summar''])
       @ CHR ''y'' # trim_end (CHR ''\<newline>'' # content s @ ''\<newline>    '')"
proof -
  let ?body = "'' Video Summary\<newline>\<newline>## Metadata\<newline>- **Video ID**: '' @ videoId s
       @ ''\<newline>- **Generated**: '' @ f (timestamp s)
       @ ''\<newline>\<newline>## Key Points\<newline>''
       @ join ''\<newline>'' (map (\<lambda>point. ''* '' @ point) (keyPoints s))
       @ ''\<newline>\<newline>## Topics\<newline>''
       @ join '' '' (map (\<lambda>topic. ''`'' @ topic @ ''`'') (topics s))
       @ ''\<newline>\<newline>## Full Summar''"
  let ?rest = "CHR ''\<newline>'' # content s @ ''\<newline>    ''"
  have "exportAsMarkdown f s = trim (CHR ''\<newline>'' # CHR ''#'' # ?body @ CHR ''y'' # ?rest)"
    by (simp add: exportAsMarkdown_def)
  also have "\<dots> = trim_end ((CHR ''#'' # ?body) @ CHR ''y'' # ?rest)"
    by (subst trim_after_newline) (simp_all add: is_space_def)
  also have "\<dots> = (CHR ''#'' # ?body) @ CHR ''y'' # trim_end ?rest"
    by (rule trim_end_append) (simp add: is_space_def)
  finally show ?thesis
    using assms by (simp add: head_lines_def)
qed

lemma code_tokens_pair:
  assumes "CHR ''`'' \<notin> set t1" and "CHR ''`'' \<notin> set t2"
  shows "code_tokens (''`'' @ t1 @ ''` `'' @ t2 @ ''`'') = [t1, t2]"
proof -
  have "split_on (CHR ''`'') (''`'' @ t1 @ ''` `'' @ t2 @ ''`'')
      = [] # split_on (CHR ''`'') (t1 @ CHR ''`'' # ('' '' @ CHR ''`'' # (t2 @ CHR ''`'' # [])))"
    by simp
  also have "\<dots> = [[], t1, '' '', t2, []]"
    using assms by (simp add: split_on_append_sep)
  finally show ?thesis
    by (simp add: code_tokens_def)
qed

text \<open>
  C9.  The claim: for every summary with two key points and two topics the Markdown
  export has a Key Points section of exactly two bulleted lines and a Topics section
  of exactly two inline-code tokens.  The export puts the strings into the template as
  they are: the key point \<open>first\<close>, line break, \<open>* more\<close> gives two bulleted lines by
  itself, and the topic \<open>cats`and`dogs\<close> gives two tokens by itself.
\<close>

theorem markdown_export_sections_counterexample:
  "length (keyPoints untidy) = 2 \<and> length (topics untidy) = 2
   \<and> filter bulleted (section_of ''## Key Points'' (lines (exportAsMarkdown today untidy)))
       = [''* first'', ''* more'', ''* second'']
   \<and> concat (map code_tokens (section_of ''## Topics'' (lines (exportAsMarkdown today untidy))))
       = [''cats'', ''dogs'', ''birds'']"
  by (simp add: untidy_def today_def exportAsMarkdown_def trim_def is_space_def lines_def
      section_of_def bulleted_def code_tokens_def)

text \<open>
  C9, amended.  For every summary with two key points and two topics, where the video
  id, the formatted date, the key points and the topics hold no line break and the
  topics hold no backtick, the export in the format \<^verbatim>\<open>markdown\<close> succeeds with the Markdown
  document; its Key Points section is the two key points, each on a line of its own
  behind \<^verbatim>\<open>* \<close>, and its Topics section is one line whose inline-code tokens are the two
  topics.
\<close>

theorem markdown_export_sections:
  assumes "keyPoints s = [k1, k2]" and "topics s = [t1, t2]"
    and "CHR ''\<newline>'' \<notin> set (videoId s)"
    and "CHR ''\<newline>'' \<notin> set (toLocaleString (timestamp s))"
    and "CHR ''\<newline>'' \<notin> set k1" and "CHR ''\<newline>'' \<notin> set k2"
    and "CHR ''\<newline>'' \<notin> set t1" and "CHR ''\<newline>'' \<notin> set t2"
    and "CHR ''`'' \<notin> set t1" and "CHR ''`'' \<notin> set t2"
  shows "handleExportSummary toLocaleString s ''markdown''
           = Success (exportAsMarkdown toLocaleString s)
       \<and> section_of ''## Key Points'' (lines (exportAsMarkdown toLocaleString s))
           = [''* '' @ k1, ''* '' @ k2]
       \<and> filter bulleted (section_of ''## Key Points'' (lines (exportAsMarkdown toLocaleString s)))
           = [''* '' @ k1, ''* '' @ k2]
       \<and> section_of ''## Topics'' (lines (exportAsMarkdown toLocaleString s))
           = [''`'' @ t1 @ ''` `'' @ t2 @ ''`'']
       \<and> concat (map code_tokens (section_of ''## Topics'' (lines (exportAsMarkdown toLocaleString s))))
           = [t1, t2]"
proof -
  let ?doc = "exportAsMarkdown toLocaleString s"
  let ?hl = "head_lines (videoId s) (toLocaleString (timestamp s)) (keyPoints s) (topics s)"
  let ?tail = "CHR ''y'' # trim_end (CHR ''\<newline>'' # content s @ ''\<newline>    '')"
  have plain: "\<forall>l \<in> set ?hl. CHR ''\<newline>'' \<notin> set l"
    using assms by (simp add: head_lines_def)
  have "lines ?doc = ?hl @ lines (''## Full Summar'' @ ?tail)"
    using lines_join[OF plain] exportAsMarkdown_shape[OF assms(1)] by simp
  then obtain rest where ls: "lines ?doc = ?hl @ rest"
    by blast
  have kp: "section_of ''## Key Points'' (lines ?doc) = [''* '' @ k1, ''* '' @ k2]"
    unfolding ls using assms(1,2) by (simp add: section_of_def head_lines_def)
  have tp: "section_of ''## Topics'' (lines ?doc) = [''`'' @ t1 @ ''` `'' @ t2 @ ''`'']"
    unfolding ls using assms(1,2) by (simp add: section_of_def head_lines_def)
  have tok: "code_tokens (''`'' @ t1 @ ''` `'' @ t2 @ ''`'') = [t1, t2]"
    using assms(9,10) by (rule code_tokens_pair)
  show ?thesis
    unfolding kp tp using tok by (simp add: handleExportSummary_def bulleted_def)
qed

theorem markdown_export_sections_witness:
  "section_of ''## Key Points'' (lines (exportAsMarkdown today tidy)) = [''* first'', ''* second'']
   \<and> section_of ''## Topics'' (lines (exportAsMarkdown today tidy)) = [''`cats` `dogs`'']
   \<and> concat (map code_tokens (section_of ''## Topics'' (lines (exportAsMarkdown today tidy))))
       = [''cats'', ''dogs'']"
proof -
  have "keyPoints tidy = [''first'', ''second'']" and "topics tidy = [''cats'', ''dogs'']"
    and "CHR ''\<newline>'' \<notin> set (videoId tidy)"
    and "CHR ''\<newline>'' \<notin> set (today (timestamp tidy))"
    by (simp_all add: tidy_def today_def)
  then show ?thesis
    using markdown_export_sections [of tidy "''first''" "''second''" "''cats''" "''dogs''" today]
    by (simp add: code_tokens_def)
qed

end
